theory Spec2Isabelle
  imports Main
begin

section \<open>Bytes, text and the Python built-ins the program uses\<close>

text \<open>
  A \<^typ>\<open>char\<close> is one byte. Python \<open>bytes\<close> values (file contents, chunks, lines) and
  Python \<open>str\<close> values (file names, patterns, records) are both lists of \<^typ>\<open>char\<close>.
\<close>

type_synonym bytes = "char list"

abbreviation nl :: char where
  "nl \<equiv> CHR 0x0A"

text \<open>
  \<open>s.split(sep)\<close> for a separator of length one: the pieces between the separators,
  always at least one piece. The \<open>[]\<close> branch of the case cannot be reached
  (lemma \<open>py_split_not_Nil\<close>).
\<close>

fun py_split :: "'a \<Rightarrow> 'a list \<Rightarrow> 'a list list" where
  "py_split sep [] = [[]]"
| "py_split sep (x # xs) =
     (if x = sep then [] # py_split sep xs
      else (case py_split sep xs of
              [] \<Rightarrow> [[x]]
            | p # ps \<Rightarrow> (x # p) # ps))"

text \<open>\<open>str(n)\<close> for a length: the decimal digits of a natural number.\<close>

function str_nat :: "nat \<Rightarrow> string" where
  "str_nat n =
     (if n < 10 then [''0123456789'' ! n]
      else str_nat (n div 10) @ [''0123456789'' ! (n mod 10)])"
  by pat_completeness auto
termination
  by (relation "measure (\<lambda>n. n)") auto

declare str_nat.simps [simp del]

text \<open>\<open>s.endswith(suffix)\<close>.\<close>

definition endswith :: "string \<Rightarrow> string \<Rightarrow> bool" where
  "endswith s suf \<longleftrightarrow>
     length suf \<le> length s \<and> drop (length s - length suf) s = suf"

section \<open>The standard library, taken as a parameter\<close>

text \<open>
  A file object opened for reading: the bytes that can still be delivered, and what
  happens once they are used up (\<open>None\<close>: end of file, \<open>Some e\<close>: the read raises
  an exception with text \<open>e\<close>).
\<close>

record stream =
  pending :: bytes
  failure :: "string option"

text \<open>
  \<open>f.read(n)\<close> on a buffered binary file: up to \<open>n\<close> bytes, fewer only at the end,
  \<open>b""\<close> at end of file. \<open>Inl e\<close> is a raised exception.
\<close>

definition read :: "nat \<Rightarrow> stream \<Rightarrow> string + (bytes \<times> stream)" where
  "read n f =
     (if pending f = [] then
        (case failure f of
           None \<Rightarrow> Inr ([], f)
         | Some e \<Rightarrow> Inl e)
      else Inr (take n (pending f), f\<lparr>pending := drop n (pending f)\<rparr>))"

text \<open>
  The modules \<open>re\<close>, \<open>bz2\<close> and \<open>gzip\<close> and the codec behind \<open>bytes.decode\<close> are not
  part of the program. They are the fields of one parameter:
  \<^item> \<open>re_compile pattern ignore_case\<close> is \<open>re.compile(pattern.encode(), flags)\<close>: an
    exception text, or the \<open>search\<close> method of the compiled pattern as a predicate on a line;
  \<^item> \<open>decode_strip line\<close> is \<open>line.decode(errors='ignore').strip()\<close>;
  \<^item> \<open>BZ2Decompressor\<close> is the state of a fresh \<open>bz2.BZ2Decompressor()\<close> and
    \<open>decompress\<close> its method: an exception text, or the bytes released and the next state;
  \<^item> \<open>GzipFile\<close> is \<open>gzip.GzipFile(fileobj=infile)\<close>: the file object that delivers the
    inflated bytes of \<open>infile\<close>.
\<close>

record 'd pylib =
  re_compile :: "string \<Rightarrow> bool \<Rightarrow> string + (bytes \<Rightarrow> bool)"
  decode_strip :: "bytes \<Rightarrow> string"
  BZ2Decompressor :: 'd
  decompress :: "'d \<Rightarrow> bytes \<Rightarrow> string + (bytes \<times> 'd)"
  GzipFile :: "stream \<Rightarrow> stream"

section \<open>The file system\<close>

text \<open>
  A path names nothing (\<open>None\<close>), a directory (with the file paths \<open>os.walk\<close> joins
  below it, in its order), a regular file whose \<open>open\<close> raises, or a regular file that
  opens as a stream.
\<close>

datatype node = Directory "string list" | Unopenable string | Regular stream

type_synonym filesystem = "string \<rightharpoonup> node"

definition isfile :: "filesystem \<Rightarrow> string \<Rightarrow> bool" where
  "isfile fs path =
     (case fs path of
        Some (Unopenable e) \<Rightarrow> True
      | Some (Regular f) \<Rightarrow> True
      | _ \<Rightarrow> False)"

definition isdir :: "filesystem \<Rightarrow> string \<Rightarrow> bool" where
  "isdir fs path = (case fs path of Some (Directory ps) \<Rightarrow> True | _ \<Rightarrow> False)"

definition walk :: "filesystem \<Rightarrow> string \<Rightarrow> string list" where
  "walk fs path = (case fs path of Some (Directory ps) \<Rightarrow> ps | _ \<Rightarrow> [])"

definition open_rb :: "filesystem \<Rightarrow> string \<Rightarrow> string + stream" where
  "open_rb fs path =
     (case fs path of
        Some (Regular f) \<Rightarrow> Inr f
      | Some (Unopenable e) \<Rightarrow> Inl e
      | Some (Directory ps) \<Rightarrow> Inl (''[Errno 21] Is a directory: '' @ path)
      | None \<Rightarrow> Inl (''[Errno 2] No such file or directory: '' @ path))"

section \<open>FastGrep.py\<close>

definition CHUNK_SIZE :: nat where
  "CHUNK_SIZE = 65536"

subsection \<open>ParseArgs: the default of \<open>--workers\<close> (line 59)\<close>

text \<open>
  \<open>max(1, os.cpu_count() - 1)\<close>. \<open>os.cpu_count()\<close> is an integer or \<open>None\<close>, and
  \<open>None - 1\<close> raises TypeError.
\<close>

definition default_workers :: "int option \<Rightarrow> string + int" where
  "default_workers cpu_count =
     (case cpu_count of
        None \<Rightarrow> Inl ''TypeError: unsupported operand type(s) for -''
      | Some n \<Rightarrow> Inr (max 1 (n - 1)))"

subsection \<open>DetectFileType (lines 114-123)\<close>

definition DetectFileType :: "string \<Rightarrow> string" where
  "DetectFileType filename =
     (if endswith filename ''.bz2'' then ''bz''
      else if endswith filename ''.gz'' then ''gz''
      else ''txt'')"

subsection \<open>The records a search returns\<close>

text \<open>Line 208: \<open>f"{filename}:{line.decode(errors='ignore').strip()}"\<close>.\<close>

definition match_record :: "'d pylib \<Rightarrow> string \<Rightarrow> bytes \<Rightarrow> string" where
  "match_record lib filename line = filename @ '':'' @ decode_strip lib line"

text \<open>Line 213: \<open>f"[ERROR] Could not read {filename}: {e}"\<close>.\<close>

definition could_not_read :: "string \<Rightarrow> string \<Rightarrow> string" where
  "could_not_read filename e = ''[ERROR] Could not read '' @ filename @ '': '' @ e"

text \<open>Line 188: \<open>'[ERROR] File not found: ' + filename\<close>, printed, not returned.\<close>

definition file_not_found :: "string \<Rightarrow> string" where
  "file_not_found filename = ''[ERROR] File not found: '' @ filename"

text \<open>What a worker hands back: the lines it printed and the list it returned.\<close>

record worker_result =
  printed :: "string list"
  returned :: "string list"

subsection \<open>The body of the read loop (lines 202-208)\<close>

text \<open>
  Lines 202-204: \<open>buffer += chunk; lines = buffer.split(b"\n"); buffer = lines.pop()\<close>.
  The result is \<open>(lines, buffer)\<close> after the pop. \<open>split\<close> never returns an empty
  list, so the pop cannot raise.
\<close>

definition split_buffer :: "bytes \<Rightarrow> bytes \<Rightarrow> bytes list \<times> bytes" where
  "split_buffer buffer chunk =
     (let lines = py_split nl (buffer @ chunk)
      in (butlast lines, last lines))"

text \<open>Lines 206-208: the \<open>for\<close> loop over the complete lines.\<close>

definition match_lines ::
  "'d pylib \<Rightarrow> (bytes \<Rightarrow> bool) \<Rightarrow> string \<Rightarrow> bytes list \<Rightarrow> string list \<Rightarrow> string list" where
  "match_lines lib search filename lines retVal =
     foldl (\<lambda>acc line. if search line then acc @ [match_record lib filename line] else acc)
       retVal lines"

definition scan_chunk ::
  "'d pylib \<Rightarrow> (bytes \<Rightarrow> bool) \<Rightarrow> string \<Rightarrow> bytes \<Rightarrow> bytes \<Rightarrow> string list
     \<Rightarrow> bytes \<times> string list" where
  "scan_chunk lib search filename chunk buffer retVal =
     (case split_buffer buffer chunk of
        (lines, buffer') \<Rightarrow> (buffer', match_lines lib search filename lines retVal))"

subsection \<open>SearchInFlat (lines 183-215) and SearchInGz (lines 286-321)\<close>

text \<open>
  The \<open>while chunk:\<close> loop of lines 200-210, which lines 306-316 repeat word for word
  on \<open>gzfile\<close>. \<open>chunk\<close> is the chunk already read, \<open>infile\<close> the file after that
  read. An exception of \<open>read\<close> leaves the loop for the handler of line 212, which
  appends one record to what \<open>retVal\<close> holds. The chunk size is an argument; the program
  passes \<open>CHUNK_SIZE\<close>.
\<close>

function read_loop ::
  "nat \<Rightarrow> 'd pylib \<Rightarrow> (bytes \<Rightarrow> bool) \<Rightarrow> string \<Rightarrow> stream \<Rightarrow> bytes \<Rightarrow> bytes \<Rightarrow> string list
     \<Rightarrow> string list" where
  "read_loop n lib search filename infile chunk buffer retVal =
     (if chunk = [] then retVal
      else (case scan_chunk lib search filename chunk buffer retVal of
              (buffer', retVal') \<Rightarrow>
                (case read n infile of
                   Inl e \<Rightarrow> retVal' @ [could_not_read filename e]
                 | Inr (chunk', infile') \<Rightarrow>
                     read_loop n lib search filename infile' chunk' buffer' retVal')))"
  by pat_completeness auto
termination
  by (relation "measure (\<lambda>(n, lib, search, filename, infile, chunk, buffer, retVal).
        length (pending infile) + (if chunk = [] then 0 else 1))")
     (auto simp: read_def split: if_splits option.splits)

declare read_loop.simps [simp del]

definition SearchInFlat_with ::
  "nat \<Rightarrow> 'd pylib \<Rightarrow> filesystem \<Rightarrow> string \<Rightarrow> string \<Rightarrow> bool \<Rightarrow> string + worker_result" where
  "SearchInFlat_with n lib fs filename pattern ignore_case =
     (if \<not> isfile fs filename then
        Inr \<lparr>printed = [file_not_found filename], returned = []\<rparr>
      else (case re_compile lib pattern ignore_case of
              Inl e \<Rightarrow> Inl e
            | Inr search \<Rightarrow>
                Inr \<lparr>printed = [],
                     returned =
                       (case open_rb fs filename of
                          Inl e \<Rightarrow> [could_not_read filename e]
                        | Inr infile \<Rightarrow>
                            (case read n infile of
                               Inl e \<Rightarrow> [could_not_read filename e]
                             | Inr (chunk, infile') \<Rightarrow>
                                 read_loop n lib search filename infile' chunk [] []))\<rparr>))"

definition SearchInFlat ::
  "'d pylib \<Rightarrow> filesystem \<Rightarrow> string \<Rightarrow> string \<Rightarrow> bool \<Rightarrow> string + worker_result" where
  "SearchInFlat = SearchInFlat_with CHUNK_SIZE"

definition SearchInGz_with ::
  "nat \<Rightarrow> 'd pylib \<Rightarrow> filesystem \<Rightarrow> string \<Rightarrow> string \<Rightarrow> bool \<Rightarrow> string + worker_result" where
  "SearchInGz_with n lib fs filename pattern ignore_case =
     (if \<not> isfile fs filename then
        Inr \<lparr>printed = [file_not_found filename], returned = []\<rparr>
      else (case re_compile lib pattern ignore_case of
              Inl e \<Rightarrow> Inl e
            | Inr search \<Rightarrow>
                Inr \<lparr>printed = [],
                     returned =
                       (case open_rb fs filename of
                          Inl e \<Rightarrow> [could_not_read filename e]
                        | Inr infile \<Rightarrow>
                            (case read n (GzipFile lib infile) of
                               Inl e \<Rightarrow> [could_not_read filename e]
                             | Inr (chunk, gzfile') \<Rightarrow>
                                 read_loop n lib search filename gzfile' chunk [] []))\<rparr>))"

definition SearchInGz ::
  "'d pylib \<Rightarrow> filesystem \<Rightarrow> string \<Rightarrow> string \<Rightarrow> bool \<Rightarrow> string + worker_result" where
  "SearchInGz = SearchInGz_with CHUNK_SIZE"

subsection \<open>SearchInBz2 (lines 234-267)\<close>

text \<open>
  The loop of lines 252-262: the chunk read from the file goes through
  \<open>decompressor.decompress\<close> before it is added to the buffer, and the loop runs while
  the chunk read, not the bytes released, is non-empty.
\<close>

function bz2_loop ::
  "nat \<Rightarrow> 'd pylib \<Rightarrow> (bytes \<Rightarrow> bool) \<Rightarrow> string \<Rightarrow> stream \<Rightarrow> 'd \<Rightarrow> bytes \<Rightarrow> bytes
     \<Rightarrow> string list \<Rightarrow> string list" where
  "bz2_loop n lib search filename infile decompressor chunk buffer retVal =
     (if chunk = [] then retVal
      else (case decompress lib decompressor chunk of
              Inl e \<Rightarrow> retVal @ [could_not_read filename e]
            | Inr (data, decompressor') \<Rightarrow>
                (case scan_chunk lib search filename data buffer retVal of
                   (buffer', retVal') \<Rightarrow>
                     (case read n infile of
                        Inl e \<Rightarrow> retVal' @ [could_not_read filename e]
                      | Inr (chunk', infile') \<Rightarrow>
                          bz2_loop n lib search filename infile' decompressor' chunk'
                            buffer' retVal'))))"
  by pat_completeness auto
termination
  by (relation "measure (\<lambda>(n, lib, search, filename, infile, decompressor, chunk, buffer, retVal).
        length (pending infile) + (if chunk = [] then 0 else 1))")
     (auto simp: read_def split: if_splits option.splits)

declare bz2_loop.simps [simp del]

definition SearchInBz2_with ::
  "nat \<Rightarrow> 'd pylib \<Rightarrow> filesystem \<Rightarrow> string \<Rightarrow> string \<Rightarrow> bool \<Rightarrow> string + worker_result" where
  "SearchInBz2_with n lib fs filename pattern ignore_case =
     (if \<not> isfile fs filename then
        Inr \<lparr>printed = [file_not_found filename], returned = []\<rparr>
      else (case re_compile lib pattern ignore_case of
              Inl e \<Rightarrow> Inl e
            | Inr search \<Rightarrow>
                Inr \<lparr>printed = [],
                     returned =
                       (case open_rb fs filename of
                          Inl e \<Rightarrow> [could_not_read filename e]
                        | Inr infile \<Rightarrow>
                            (case read n infile of
                               Inl e \<Rightarrow> [could_not_read filename e]
                             | Inr (chunk, infile') \<Rightarrow>
                                 bz2_loop n lib search filename infile' (BZ2Decompressor lib)
                                   chunk [] []))\<rparr>))"

definition SearchInBz2 ::
  "'d pylib \<Rightarrow> filesystem \<Rightarrow> string \<Rightarrow> string \<Rightarrow> bool \<Rightarrow> string + worker_result" where
  "SearchInBz2 = SearchInBz2_with CHUNK_SIZE"

subsection \<open>SearchFilesInParallel (lines 147-163)\<close>

text \<open>
  Line 158: \<open>f"{matches[0].split(':')[0]}:{len(matches)}"\<close>. Both \<open>[0]\<close> read a
  non-empty list: \<open>matches\<close> by the test of line 156, the split always.
\<close>

definition count_label :: "string \<Rightarrow> string" where
  "count_label m = hd (py_split (CHR '':'') m)"

definition count_record :: "string list \<Rightarrow> string" where
  "count_record matches = count_label (hd matches) @ '':'' @ str_nat (length matches)"

text \<open>
  Lines 156-161, for the list one file returned: nothing for an empty list, one count
  record in count mode, the list itself otherwise.
\<close>

definition collect :: "bool \<Rightarrow> string list \<Rightarrow> string list \<Rightarrow> string list" where
  "collect countOnly retVal matches =
     (if matches \<noteq> [] then
        (if countOnly then retVal @ [count_record matches]
         else retVal @ matches)
      else retVal)"

text \<open>
  The \<open>for\<close> loop over what \<open>executor.map\<close> yields: the results come in the order of
  \<open>files\<close>, and a result that is an exception of the worker is raised again there.
\<close>

fun gather :: "bool \<Rightarrow> (string + worker_result) list \<Rightarrow> string list \<Rightarrow> string + string list" where
  "gather countOnly [] retVal = Inr retVal"
| "gather countOnly (r # results) retVal =
     (case r of
        Inl e \<Rightarrow> Inl e
      | Inr w \<Rightarrow> gather countOnly results (collect countOnly retVal (returned w)))"

text \<open>\<open>ProcessPoolExecutor(max_workers=buffPonies)\<close> raises ValueError unless \<open>buffPonies > 0\<close>.\<close>

definition SearchFilesInParallel ::
  "(string \<Rightarrow> string \<Rightarrow> bool \<Rightarrow> string + worker_result) \<Rightarrow> string list \<Rightarrow> string \<Rightarrow> bool
     \<Rightarrow> bool \<Rightarrow> int \<Rightarrow> string + string list" where
  "SearchFilesInParallel func files pattern ignoreCase countOnly buffPonies =
     (if buffPonies \<le> 0 then Inl ''max_workers must be greater than 0''
      else gather countOnly (map (\<lambda>file. func file pattern ignoreCase) files) [])"

subsection \<open>Main (lines 433-511)\<close>

record args =
  arg_pattern :: "string option"
  arg_files :: "string list"
  arg_ignore_case :: bool
  arg_recursive :: bool
  arg_count :: bool
  arg_output :: "string option"
  arg_workers :: int
  arg_help :: bool

text \<open>
  How a run ends: the usage text and no search, an exception that nothing catches, or
  the list \<open>matchedLines\<close> that reaches the output step of line 500.
\<close>

datatype run = Usage | Raised string | MatchedLines "string list"

text \<open>
  Lines 457-468: the loop that fills \<open>allFiles\<close>. A path that is neither a directory
  to recurse into nor a file is skipped with a warning.
\<close>

fun resolve :: "filesystem \<Rightarrow> bool \<Rightarrow> string list \<Rightarrow> string list \<Rightarrow> string list" where
  "resolve fs recursive [] allFiles = allFiles"
| "resolve fs recursive (path # paths) allFiles =
     (if isdir fs path \<and> recursive then resolve fs recursive paths (allFiles @ walk fs path)
      else if isfile fs path then resolve fs recursive paths (allFiles @ [path])
      else resolve fs recursive paths allFiles)"

text \<open>Lines 478-489: the loop that fills \<open>bzFiles\<close>, \<open>gzFiles\<close> and \<open>flatFiles\<close>.\<close>

fun classify ::
  "string list \<Rightarrow> string list \<times> string list \<times> string list
     \<Rightarrow> string list \<times> string list \<times> string list" where
  "classify [] (bzFiles, gzFiles, flatFiles) = (bzFiles, gzFiles, flatFiles)"
| "classify (file # allFiles) (bzFiles, gzFiles, flatFiles) =
     (let fileType = DetectFileType file in
      if fileType = ''bz'' then classify allFiles (bzFiles @ [file], gzFiles, flatFiles)
      else if fileType = ''gz'' then classify allFiles (bzFiles, gzFiles @ [file], flatFiles)
      else classify allFiles (bzFiles, gzFiles, flatFiles @ [file]))"

text \<open>Each of lines 491-498: \<open>if xFiles: matchedLines += SearchFilesInParallel(...)\<close>.\<close>

definition run_pass ::
  "(string \<Rightarrow> string \<Rightarrow> bool \<Rightarrow> string + worker_result) \<Rightarrow> string list \<Rightarrow> string \<Rightarrow> bool
     \<Rightarrow> bool \<Rightarrow> int \<Rightarrow> string + string list" where
  "run_pass func files pattern ignoreCase countOnly buffPonies =
     (if files \<noteq> [] then SearchFilesInParallel func files pattern ignoreCase countOnly buffPonies
      else Inr [])"

definition Main :: "'d pylib \<Rightarrow> filesystem \<Rightarrow> args \<Rightarrow> run" where
  "Main lib fs a =
     (case arg_pattern a of
        None \<Rightarrow> Usage
      | Some pattern \<Rightarrow>
          if arg_help a \<or> pattern = [] \<or> arg_files a = [] then Usage
          else
            (case classify (resolve fs (arg_recursive a) (arg_files a) []) ([], [], []) of
               (bzFiles, gzFiles, flatFiles) \<Rightarrow>
                 (case run_pass (SearchInBz2 lib fs) bzFiles pattern
                         (arg_ignore_case a) (arg_count a) (arg_workers a) of
                    Inl e \<Rightarrow> Raised e
                  | Inr fromBz \<Rightarrow>
                      (case run_pass (SearchInGz lib fs) gzFiles pattern
                              (arg_ignore_case a) (arg_count a) (arg_workers a) of
                         Inl e \<Rightarrow> Raised e
                       | Inr fromGz \<Rightarrow>
                           (case run_pass (SearchInFlat lib fs) flatFiles pattern
                                   (arg_ignore_case a) (arg_count a) (arg_workers a) of
                              Inl e \<Rightarrow> Raised e
                            | Inr fromFlat \<Rightarrow> MatchedLines (fromBz @ fromGz @ fromFlat))))))"

section \<open>What the specification speaks of\<close>

text \<open>
  The complete lines of a content, as the specification words them: every run of bytes
  that a newline ends. What follows the last newline is not a line. \<open>cur\<close> is the
  line being read.
\<close>

fun lines_from :: "bytes \<Rightarrow> bytes \<Rightarrow> bytes list" where
  "lines_from cur [] = []"
| "lines_from cur (b # bs) =
     (if b = nl then cur # lines_from [] bs else lines_from (cur @ [b]) bs)"

definition complete_lines :: "bytes \<Rightarrow> bytes list" where
  "complete_lines content = lines_from [] content"

text \<open>A content written out: the lines, a newline after each, then a last fragment.\<close>

definition join_lines :: "bytes list \<Rightarrow> bytes \<Rightarrow> bytes" where
  "join_lines ls fragment = concat (map (\<lambda>l. l @ [nl]) ls) @ fragment"

text \<open>The records of the complete lines that the pattern matches, in file order.\<close>

definition matching_records ::
  "'d pylib \<Rightarrow> (bytes \<Rightarrow> bool) \<Rightarrow> string \<Rightarrow> bytes \<Rightarrow> string list" where
  "matching_records lib search filename content =
     map (match_record lib filename) (filter search (complete_lines content))"

text \<open>The error record of a stream that ends in a failure, if it does.\<close>

definition failure_records :: "string \<Rightarrow> string option \<Rightarrow> string list" where
  "failure_records filename err =
     (case err of None \<Rightarrow> [] | Some e \<Rightarrow> [could_not_read filename e])"

text \<open>The chunks that successive \<open>read(n)\<close> calls cut a content into.\<close>

function chop :: "nat \<Rightarrow> bytes \<Rightarrow> bytes list" where
  "chop n bs = (if n = 0 \<or> bs = [] then [] else take n bs # chop n (drop n bs))"
  by pat_completeness auto
termination
  by (relation "measure (\<lambda>(n, bs). length bs)") auto

declare chop.simps [simp del]

text \<open>
  A decompressor fed a list of chunks one after the other: the bytes it releases up to
  its first exception, and that exception if there is one.
\<close>

fun decode_all ::
  "('d \<Rightarrow> bytes \<Rightarrow> string + (bytes \<times> 'd)) \<Rightarrow> 'd \<Rightarrow> bytes list \<Rightarrow> bytes \<times> string option" where
  "decode_all step d [] = ([], None)"
| "decode_all step d (c # cs) =
     (case step d c of
        Inl e \<Rightarrow> ([], Some e)
      | Inr (data, d') \<Rightarrow>
          (case decode_all step d' cs of (rest, err) \<Rightarrow> (data @ rest, err)))"

text \<open>
  The chunk buffer over a list of chunks: \<open>split_buffer\<close> applied chunk after chunk,
  with all the lines it extracted and the buffer it ends with.
\<close>

fun extract_all :: "bytes \<Rightarrow> bytes list \<Rightarrow> bytes list \<times> bytes" where
  "extract_all buffer [] = ([], buffer)"
| "extract_all buffer (c # cs) =
     (case split_buffer buffer c of
        (lines, buffer') \<Rightarrow>
          (case extract_all buffer' cs of (rest, final) \<Rightarrow> (lines @ rest, final)))"

text \<open>
  What \<open>SearchInBz2\<close> gets to see of a file it reads in chunks of \<open>n\<close> bytes: the
  bytes the decompressor releases before the first exception, and that exception (of
  the decompressor, or else of the file).
\<close>

definition bz2_stream :: "'d pylib \<Rightarrow> nat \<Rightarrow> stream \<Rightarrow> stream" where
  "bz2_stream lib n f =
     (case decode_all (decompress lib) (BZ2Decompressor lib) (chop n (pending f)) of
        (data, derr) \<Rightarrow>
          \<lparr>pending = data,
           failure = (case derr of Some e \<Rightarrow> Some e | None \<Rightarrow> failure f)\<rparr>)"

text \<open>
  Map-style results of one pass: what each file of the list contributes, at the place
  of that file in the list. A worker that raised contributes nothing here.
\<close>

definition records_of :: "string + worker_result \<Rightarrow> string list" where
  "records_of r = (case r of Inl e \<Rightarrow> [] | Inr w \<Rightarrow> returned w)"

definition pass_output ::
  "(string \<Rightarrow> string \<Rightarrow> bool \<Rightarrow> string + worker_result) \<Rightarrow> string list \<Rightarrow> string \<Rightarrow> bool
     \<Rightarrow> bool \<Rightarrow> string list" where
  "pass_output func files pattern ignoreCase countOnly =
     concat (map (\<lambda>file. collect countOnly [] (records_of (func file pattern ignoreCase))) files)"

text \<open>The files of one encoding, in the order they have in a list.\<close>

definition files_of_type :: "string \<Rightarrow> string list \<Rightarrow> string list" where
  "files_of_type t allFiles = filter (\<lambda>file. DetectFileType file = t) allFiles"

section \<open>A small library instance to run the model on\<close>

text \<open>
  One concrete value of the library parameter, for evaluating the model on examples:
  a pattern is a literal substring (and \<open>(\<close> alone does not compile), text is ASCII,
  the compressed form of the bzip2 stand-in is a run-length code of (count, byte)
  pairs, and the gzip stand-in is one magic byte before the stored content.
\<close>

fun starts_with :: "bytes \<Rightarrow> bytes \<Rightarrow> bool" where
  "starts_with [] line = True"
| "starts_with (p # ps) [] = False"
| "starts_with (p # ps) (c # cs) = (p = c \<and> starts_with ps cs)"

fun contains :: "bytes \<Rightarrow> bytes \<Rightarrow> bool" where
  "contains pat [] = (pat = [])"
| "contains pat (c # cs) = (starts_with pat (c # cs) \<or> contains pat cs)"

definition literal_compile :: "string \<Rightarrow> bool \<Rightarrow> string + (bytes \<Rightarrow> bool)" where
  "literal_compile pattern ignore_case =
     (if pattern = ''('' then Inl ''missing ), unterminated subpattern at position 0''
      else Inr (contains pattern))"

definition is_space :: "char \<Rightarrow> bool" where
  "is_space c \<longleftrightarrow> c \<in> set [CHR '' '', CHR 0x09, CHR 0x0A, CHR 0x0B, CHR 0x0C, CHR 0x0D]"

definition ascii_strip :: "bytes \<Rightarrow> string" where
  "ascii_strip line =
     rev (dropWhile is_space (rev (dropWhile is_space
       (filter (\<lambda>c. of_char c < (128 :: nat)) line))))"

fun rle_decompress :: "nat option \<Rightarrow> bytes \<Rightarrow> string + (bytes \<times> nat option)" where
  "rle_decompress d [] = Inr ([], d)"
| "rle_decompress None (c # cs) =
     (if of_char c = (0 :: nat) then Inl ''Invalid data stream''
      else rle_decompress (Some (of_char c)) cs)"
| "rle_decompress (Some k) (c # cs) =
     (case rle_decompress None cs of
        Inl e \<Rightarrow> Inl e
      | Inr (data, d') \<Rightarrow> Inr (replicate k c @ data, d'))"

definition stored_GzipFile :: "stream \<Rightarrow> stream" where
  "stored_GzipFile f =
     (case pending f of
        [] \<Rightarrow> \<lparr>pending = [], failure = Some ''Not a gzipped file''\<rparr>
      | c # cs \<Rightarrow>
          if c = CHR 0x1F then f\<lparr>pending := cs\<rparr>
          else \<lparr>pending = [], failure = Some ''Not a gzipped file''\<rparr>)"

definition small_lib :: "nat option pylib" where
  "small_lib =
     \<lparr>re_compile = literal_compile, decode_strip = ascii_strip,
      BZ2Decompressor = None, decompress = rle_decompress,
      GzipFile = stored_GzipFile\<rparr>"

text \<open>
  A file system to go with it. \<open>notes.txt\<close> has two complete lines and a last line
  without a newline; \<open>notes.txt.gz\<close> and \<open>notes.txt.bz2\<close> hold the same content in
  the two stand-in formats; \<open>locked.txt\<close> cannot be opened; reading \<open>broken.txt\<close>
  fails after its readable bytes; \<open>bad.bz2\<close> holds a pair that does not decode.
\<close>

definition notes_txt :: bytes where
  "notes_txt = ''disk error'' @ [nl] @ ''all fine'' @ [nl] @ ''last error''"

definition rle_compress :: "bytes \<Rightarrow> bytes" where
  "rle_compress content = concat (map (\<lambda>c. [CHR 0x01, c]) content)"

definition broken_txt :: bytes where
  "broken_txt = ''error one'' @ [nl] @ ''err''"

definition bad_bz2 :: bytes where
  "bad_bz2 = rle_compress (''error here'' @ [nl]) @ [CHR 0x00, CHR ''x'']"

definition demo_fs :: filesystem where
  "demo_fs =
     [''notes.txt'' \<mapsto> Regular \<lparr>pending = notes_txt, failure = None\<rparr>,
      ''notes.txt.gz'' \<mapsto> Regular \<lparr>pending = CHR 0x1F # notes_txt, failure = None\<rparr>,
      ''notes.txt.bz2'' \<mapsto> Regular \<lparr>pending = rle_compress notes_txt, failure = None\<rparr>,
      ''locked.txt'' \<mapsto> Unopenable ''[Errno 13] Permission denied'',
      ''broken.txt'' \<mapsto>
        Regular \<lparr>pending = broken_txt, failure = Some ''[Errno 5] Input/output error''\<rparr>,
      ''bad.bz2'' \<mapsto> Regular \<lparr>pending = bad_bz2, failure = None\<rparr>,
      ''logs'' \<mapsto> Directory [''logs/a.gz'', ''logs/b.txt'']]"

definition demo_args :: args where
  "demo_args =
     \<lparr>arg_pattern = Some ''error'', arg_files = [''notes.txt'', ''notes.txt.gz'', ''notes.txt.bz2''],
      arg_ignore_case = False, arg_recursive = False, arg_count = False, arg_output = None,
      arg_workers = 3, arg_help = False\<rparr>"

section \<open>Splitting and the chunk buffer\<close>

lemma py_split_not_Nil: "py_split sep xs \<noteq> []"
  by (induction xs) (auto split: list.splits)

lemma py_split_append:
  "py_split sep (a @ b) = butlast (py_split sep a) @ py_split sep (last (py_split sep a) @ b)"
proof (induction a)
  case Nil
  show ?case by simp
next
  case (Cons x a)
  obtain p ps where S: "py_split sep a = p # ps"
    using py_split_not_Nil [of sep a] by (cases "py_split sep a") auto
  show ?case
  proof (cases "x = sep")
    case True
    then show ?thesis using Cons S by simp
  next
    case False
    show ?thesis
    proof (cases ps)
      case Nil
      then show ?thesis using Cons S False
        by (auto split: list.splits simp: py_split_not_Nil)
    next
      case (Cons q qs)
      then show ?thesis using Cons.IH S False
        by (auto split: list.splits simp: py_split_not_Nil)
    qed
  qed
qed

lemma py_split_no_sep: "l \<in> set (py_split sep xs) \<Longrightarrow> sep \<notin> set l"
  by (induction xs arbitrary: l) (auto split: list.splits if_splits)

lemma py_split_join:
  "concat (map (\<lambda>l. l @ [sep]) (butlast (py_split sep xs))) @ last (py_split sep xs) = xs"
  by (induction xs) (auto split: list.splits simp: py_split_not_Nil)

lemma py_split_no_sep_id: "sep \<notin> set xs \<Longrightarrow> py_split sep xs = [xs]"
  by (induction xs) auto

lemma match_lines_eq:
  "match_lines lib search filename lines retVal =
     retVal @ map (match_record lib filename) (filter search lines)"
  unfolding match_lines_def
  by (induction lines arbitrary: retVal) auto

lemma lines_from_split:
  "lines_from cur xs = butlast (case py_split nl xs of [] \<Rightarrow> [] | p # ps \<Rightarrow> (cur @ p) # ps)"
  by (induction xs arbitrary: cur) (auto split: list.splits simp: py_split_not_Nil)

lemma complete_lines_split: "complete_lines xs = butlast (py_split nl xs)"
  unfolding complete_lines_def lines_from_split
  by (auto split: list.splits)


lemma butlast_py_split_append:
  "butlast (py_split sep (a @ b)) =
     butlast (py_split sep a) @ butlast (py_split sep (last (py_split sep a) @ b))"
  by (subst py_split_append) (simp add: butlast_append py_split_not_Nil)

lemma last_py_split_append:
  "last (py_split sep (a @ b)) = last (py_split sep (last (py_split sep a) @ b))"
  by (subst py_split_append) (simp add: py_split_not_Nil)

lemma last_py_split_no_sep: "sep \<notin> set (last (py_split sep xs))"
  using py_split_no_sep [of "last (py_split sep xs)" sep xs] py_split_not_Nil [of sep xs]
  by simp

lemma scan_chunk_eq:
  "scan_chunk lib search filename chunk buffer retVal =
     (last (py_split nl (buffer @ chunk)),
      retVal @ map (match_record lib filename)
        (filter search (butlast (py_split nl (buffer @ chunk)))))"
  by (simp add: scan_chunk_def split_buffer_def match_lines_eq Let_def)

lemma read_loop_eq:
  "0 < n \<Longrightarrow> chunk \<noteq> [] \<Longrightarrow>
   read_loop n lib search filename infile chunk buffer retVal =
     retVal @ map (match_record lib filename)
       (filter search (butlast (py_split nl (buffer @ chunk @ pending infile))))
     @ failure_records filename (failure infile)"
proof (induction n lib search filename infile chunk buffer retVal rule: read_loop.induct)
  case (1 n lib search filename infile chunk buffer retVal)
  let ?b = "last (py_split nl (buffer @ chunk))"
  let ?r = "retVal @ map (match_record lib filename)
              (filter search (butlast (py_split nl (buffer @ chunk))))"
  have sc: "scan_chunk lib search filename chunk buffer retVal = (?b, ?r)"
    by (rule scan_chunk_eq)
  show ?case
  proof (cases "pending infile = []")
    case True
    show ?thesis
    proof (cases "failure infile")
      case None
      with True have rd: "read n infile = Inr ([], infile)"
        by (simp add: read_def)
      have "read_loop n lib search filename infile [] ?b ?r = ?r"
        by (simp add: read_loop.simps)
      with True None rd sc "1.prems" show ?thesis
        by (subst read_loop.simps) (simp add: failure_records_def)
    next
      case (Some e)
      with True have rd: "read n infile = Inl e"
        by (simp add: read_def)
      with True Some sc "1.prems" show ?thesis
        by (subst read_loop.simps) (simp add: failure_records_def)
    qed
  next
    case False
    let ?c = "take n (pending infile)"
    let ?f = "infile\<lparr>pending := drop n (pending infile)\<rparr>"
    from False have rd: "read n infile = Inr (?c, ?f)"
      by (simp add: read_def)
    from False "1.prems" have ne: "?c \<noteq> []"
      by simp
    have IH: "read_loop n lib search filename ?f ?c ?b ?r =
        ?r @ map (match_record lib filename)
          (filter search (butlast (py_split nl (?b @ ?c @ pending ?f))))
        @ failure_records filename (failure ?f)"
      using "1.IH" [OF "1.prems"(2) sc [symmetric] rd refl "1.prems"(1) ne] .
    have whole: "butlast (py_split nl (buffer @ chunk @ pending infile)) =
        butlast (py_split nl (buffer @ chunk))
        @ butlast (py_split nl (?b @ pending infile))"
      using butlast_py_split_append [of nl "buffer @ chunk" "pending infile"] by simp
    have "read_loop n lib search filename infile chunk buffer retVal =
        read_loop n lib search filename ?f ?c ?b ?r"
      using "1.prems" sc rd by (subst read_loop.simps) simp
    with IH whole show ?thesis
      by simp
  qed
qed

lemma chop_Nil: "chop n [] = []"
  by (simp add: chop.simps)

lemma chop_Cons: "0 < n \<Longrightarrow> bs \<noteq> [] \<Longrightarrow> chop n bs = take n bs # chop n (drop n bs)"
  by (subst chop.simps) simp

lemma bz2_loop_eq:
  "0 < n \<Longrightarrow> chunk \<noteq> [] \<Longrightarrow> nl \<notin> set buffer \<Longrightarrow>
   bz2_loop n lib search filename infile d chunk buffer retVal =
     (case decode_all (decompress lib) d (chunk # chop n (pending infile)) of
        (data, derr) \<Rightarrow>
          retVal @ map (match_record lib filename)
            (filter search (butlast (py_split nl (buffer @ data))))
          @ failure_records filename
              (case derr of Some e \<Rightarrow> Some e | None \<Rightarrow> failure infile))"
proof (induction n lib search filename infile d chunk buffer retVal rule: bz2_loop.induct)
  case (1 n lib search filename infile d chunk buffer retVal)
  show ?case
  proof (cases "decompress lib d chunk")
    case (Inl e)
    with "1.prems" show ?thesis
      by (subst bz2_loop.simps) (simp add: failure_records_def py_split_no_sep_id)
  next
    case (Inr res)
    obtain data d' where res: "res = (data, d')"
      by (cases res)
    let ?b = "last (py_split nl (buffer @ data))"
    let ?r = "retVal @ map (match_record lib filename)
                (filter search (butlast (py_split nl (buffer @ data))))"
    have sc: "scan_chunk lib search filename data buffer retVal = (?b, ?r)"
      by (rule scan_chunk_eq)
    have nob: "nl \<notin> set ?b"
      by (rule last_py_split_no_sep)
    show ?thesis
    proof (cases "pending infile = []")
      case True
      show ?thesis
      proof (cases "failure infile")
        case None
        with True have rd: "read n infile = Inr ([], infile)"
          by (simp add: read_def)
        have "bz2_loop n lib search filename infile d' [] ?b ?r = ?r"
          by (simp add: bz2_loop.simps)
        with True None rd sc Inr res "1.prems" show ?thesis
          by (subst bz2_loop.simps) (simp add: failure_records_def chop_Nil)
      next
        case (Some e)
        with True have rd: "read n infile = Inl e"
          by (simp add: read_def)
        with True Some sc Inr res "1.prems" show ?thesis
          by (subst bz2_loop.simps) (simp add: failure_records_def chop_Nil)
      qed
    next
      case False
      let ?c = "take n (pending infile)"
      let ?f = "infile\<lparr>pending := drop n (pending infile)\<rparr>"
      from False have rd: "read n infile = Inr (?c, ?f)"
        by (simp add: read_def)
      from False "1.prems" have ne: "?c \<noteq> []"
        by simp
      have IH: "bz2_loop n lib search filename ?f d' ?c ?b ?r =
          (case decode_all (decompress lib) d' (?c # chop n (pending ?f)) of
             (data', derr) \<Rightarrow>
               ?r @ map (match_record lib filename)
                 (filter search (butlast (py_split nl (?b @ data'))))
               @ failure_records filename
                   (case derr of Some e \<Rightarrow> Some e | None \<Rightarrow> failure ?f))"
        using "1.IH" [OF "1.prems"(2) Inr res [symmetric] sc [symmetric] rd refl
            "1.prems"(1) ne nob] .
      have step: "bz2_loop n lib search filename infile d chunk buffer retVal =
          bz2_loop n lib search filename ?f d' ?c ?b ?r"
        using "1.prems" sc rd Inr res by (subst bz2_loop.simps) simp
      have ch: "chop n (pending infile) = ?c # chop n (pending ?f)"
        using chop_Cons [OF "1.prems"(1) False] by simp
      obtain data' derr where da: "decode_all (decompress lib) d' (?c # chop n (pending ?f)) = (data', derr)"
        by (cases "decode_all (decompress lib) d' (?c # chop n (pending ?f))")
      have whole: "butlast (py_split nl (buffer @ data @ data')) =
          butlast (py_split nl (buffer @ data)) @ butlast (py_split nl (?b @ data'))"
        using butlast_py_split_append [of nl "buffer @ data" data'] by simp
      show ?thesis
        unfolding step IH ch
        using da Inr res whole by (cases derr) simp_all
    qed
  qed
qed

section \<open>What each searcher returns for a regular file\<close>

lemma read_stream_eq:
  "0 < n \<Longrightarrow>
   (case read n f of
      Inl e \<Rightarrow> [could_not_read filename e]
    | Inr (chunk, f') \<Rightarrow> read_loop n lib search filename f' chunk [] []) =
   matching_records lib search filename (pending f) @ failure_records filename (failure f)"
proof (cases "pending f = []")
  case True
  assume "0 < n"
  with True show ?thesis
    by (cases "failure f")
       (simp_all add: read_def read_loop.simps matching_records_def complete_lines_split
          failure_records_def)
next
  case False
  assume n: "0 < n"
  with False have "take n (pending f) \<noteq> []"
    by simp
  from read_loop_eq [OF n this, of lib search filename "f\<lparr>pending := drop n (pending f)\<rparr>" "[]" "[]"]
    False
  show ?thesis
    by (simp add: read_def matching_records_def complete_lines_split)
qed

lemma flat_regular:
  "0 < n \<Longrightarrow> fs filename = Some (Regular f) \<Longrightarrow> re_compile lib pattern ic = Inr search \<Longrightarrow>
   SearchInFlat_with n lib fs filename pattern ic =
     Inr \<lparr>printed = [],
          returned = matching_records lib search filename (pending f)
                     @ failure_records filename (failure f)\<rparr>"
  using read_stream_eq [where n = n and f = f and filename = filename and lib = lib and search = search]
  by (simp add: SearchInFlat_with_def isfile_def open_rb_def)

lemma gz_regular:
  "0 < n \<Longrightarrow> fs filename = Some (Regular f) \<Longrightarrow> re_compile lib pattern ic = Inr search \<Longrightarrow>
   SearchInGz_with n lib fs filename pattern ic =
     Inr \<lparr>printed = [],
          returned = matching_records lib search filename (pending (GzipFile lib f))
                     @ failure_records filename (failure (GzipFile lib f))\<rparr>"
  using read_stream_eq [where n = n and f = "GzipFile lib f" and filename = filename and lib = lib and search = search]
  by (simp add: SearchInGz_with_def isfile_def open_rb_def)

lemma bz2_stream_eq:
  "0 < n \<Longrightarrow>
   (case read n f of
      Inl e \<Rightarrow> [could_not_read filename e]
    | Inr (chunk, f') \<Rightarrow>
        bz2_loop n lib search filename f' (BZ2Decompressor lib) chunk [] []) =
   matching_records lib search filename (pending (bz2_stream lib n f))
   @ failure_records filename (failure (bz2_stream lib n f))"
proof (cases "pending f = []")
  case True
  assume "0 < n"
  with True show ?thesis
    by (cases "failure f")
       (simp_all add: read_def bz2_loop.simps matching_records_def complete_lines_split
          failure_records_def bz2_stream_def chop_Nil)
next
  case False
  assume n: "0 < n"
  with False have ne: "take n (pending f) \<noteq> []"
    by simp
  have ch: "chop n (pending f) = take n (pending f) # chop n (drop n (pending f))"
    using chop_Cons [OF n False] .
  from bz2_loop_eq [OF n ne, of "[]" lib search filename
      "f\<lparr>pending := drop n (pending f)\<rparr>" "BZ2Decompressor lib" "[]"] False
  show ?thesis
    unfolding bz2_stream_def ch
    by (auto simp add: read_def matching_records_def complete_lines_split split: prod.splits option.splits)
qed

lemma bz2_regular:
  "0 < n \<Longrightarrow> fs filename = Some (Regular f) \<Longrightarrow> re_compile lib pattern ic = Inr search \<Longrightarrow>
   SearchInBz2_with n lib fs filename pattern ic =
     Inr \<lparr>printed = [],
          returned = matching_records lib search filename (pending (bz2_stream lib n f))
                     @ failure_records filename (failure (bz2_stream lib n f))\<rparr>"
  using bz2_stream_eq [where n = n and f = f and filename = filename and lib = lib and search = search]
  by (simp add: SearchInBz2_with_def isfile_def open_rb_def)

lemma py_split_lines:
  "(\<forall>l\<in>set ls. sep \<notin> set l) \<Longrightarrow> sep \<notin> set fragment \<Longrightarrow>
   py_split sep (concat (map (\<lambda>l. l @ [sep]) ls) @ fragment) = ls @ [fragment]"
proof (induction ls)
  case Nil
  then show ?case by (simp add: py_split_no_sep_id)
next
  case (Cons l ls)
  have "sep \<notin> set l \<Longrightarrow> py_split sep (l @ sep # rest) = l # py_split sep rest" for rest
    by (induction l) (auto split: list.splits simp: py_split_not_Nil)
  with Cons show ?case by simp
qed

lemma complete_lines_fragment:
  "(\<forall>l\<in>set ls. nl \<notin> set l) \<Longrightarrow> nl \<notin> set fragment \<Longrightarrow>
   complete_lines (concat (map (\<lambda>l. l @ [nl]) ls) @ fragment) = ls"
  by (simp add: complete_lines_split py_split_lines)

section \<open>The claims about the stream searchers\<close>

lemma matching_records_join_lines:
  "(\<forall>l\<in>set ls. nl \<notin> set l) \<Longrightarrow> nl \<notin> set fragment \<Longrightarrow>
   matching_records lib search filename (join_lines ls fragment) =
     map (match_record lib filename) (filter search ls)"
  by (simp add: matching_records_def join_lines_def complete_lines_fragment)

lemma CHUNK_SIZE_pos: "0 < CHUNK_SIZE"
  by (simp add: CHUNK_SIZE_def)

text \<open>
  C1. A file whose content is the lines \<open>ls\<close>, each ended by a newline, followed by a
  fragment without a newline: each of the three searchers returns the records of the
  lines of \<open>ls\<close> that match, and nothing for the fragment, whether the fragment
  matches or not.
\<close>

theorem C1_unterminated_fragment_dropped:
  assumes "re_compile lib pattern ic = Inr search"
    and "\<forall>l\<in>set ls. nl \<notin> set l"
    and "nl \<notin> set fragment"
  shows "(fs flat = Some (Regular t) \<and> pending t = join_lines ls fragment \<and> failure t = None
            \<longrightarrow> SearchInFlat lib fs flat pattern ic =
                  Inr \<lparr>printed = [],
                       returned = map (match_record lib flat) (filter search ls)\<rparr>)
       \<and> (fs gzname = Some (Regular g) \<and> pending (GzipFile lib g) = join_lines ls fragment
             \<and> failure (GzipFile lib g) = None
            \<longrightarrow> SearchInGz lib fs gzname pattern ic =
                  Inr \<lparr>printed = [],
                       returned = map (match_record lib gzname) (filter search ls)\<rparr>)
       \<and> (fs bzname = Some (Regular b)
             \<and> pending (bz2_stream lib CHUNK_SIZE b) = join_lines ls fragment
             \<and> failure (bz2_stream lib CHUNK_SIZE b) = None
            \<longrightarrow> SearchInBz2 lib fs bzname pattern ic =
                  Inr \<lparr>printed = [],
                       returned = map (match_record lib bzname) (filter search ls)\<rparr>)"
proof (intro conjI impI)
  assume "fs flat = Some (Regular t) \<and> pending t = join_lines ls fragment \<and> failure t = None"
  with assms show "SearchInFlat lib fs flat pattern ic =
      Inr \<lparr>printed = [], returned = map (match_record lib flat) (filter search ls)\<rparr>"
    by (simp add: SearchInFlat_def flat_regular [OF CHUNK_SIZE_pos]
        matching_records_join_lines failure_records_def)
next
  assume "fs gzname = Some (Regular g) \<and> pending (GzipFile lib g) = join_lines ls fragment
      \<and> failure (GzipFile lib g) = None"
  with assms show "SearchInGz lib fs gzname pattern ic =
      Inr \<lparr>printed = [], returned = map (match_record lib gzname) (filter search ls)\<rparr>"
    by (simp add: SearchInGz_def gz_regular [OF CHUNK_SIZE_pos]
        matching_records_join_lines failure_records_def)
next
  assume "fs bzname = Some (Regular b)
      \<and> pending (bz2_stream lib CHUNK_SIZE b) = join_lines ls fragment
      \<and> failure (bz2_stream lib CHUNK_SIZE b) = None"
  with assms show "SearchInBz2 lib fs bzname pattern ic =
      Inr \<lparr>printed = [], returned = map (match_record lib bzname) (filter search ls)\<rparr>"
    by (simp add: SearchInBz2_def bz2_regular [OF CHUNK_SIZE_pos]
        matching_records_join_lines failure_records_def)
qed

lemma demo_compile: "re_compile small_lib ''error'' False = Inr (contains ''error'')"
  by (simp add: small_lib_def literal_compile_def)

lemma notes_txt_lines: "notes_txt = join_lines [''disk error'', ''all fine''] ''last error''"
  by (simp add: notes_txt_def join_lines_def)

lemma demo_gz_stream:
  "GzipFile small_lib \<lparr>pending = CHR 0x1F # notes_txt, failure = None\<rparr> =
     \<lparr>pending = notes_txt, failure = None\<rparr>"
  by (simp add: small_lib_def stored_GzipFile_def)

lemma rle_decompress_compress:
  "rle_decompress None (rle_compress content) = Inr (content, None)"
  unfolding rle_compress_def
  by (induction content) simp_all

lemma chop_short: "bs \<noteq> [] \<Longrightarrow> length bs \<le> n \<Longrightarrow> chop n bs = [bs]"
  by (subst chop.simps) (cases n, auto simp: chop_Nil)

lemma demo_bz2_stream:
  "bz2_stream small_lib CHUNK_SIZE \<lparr>pending = rle_compress notes_txt, failure = None\<rparr> =
     \<lparr>pending = notes_txt, failure = None\<rparr>"
proof -
  have "chop CHUNK_SIZE (rle_compress notes_txt) = [rle_compress notes_txt]"
    by (rule chop_short) (simp_all add: rle_compress_def notes_txt_def CHUNK_SIZE_def)
  then show ?thesis
    by (simp add: bz2_stream_def small_lib_def rle_decompress_compress)
qed

theorem C1_witness:
  "contains ''error'' ''last error''
   \<and> SearchInFlat small_lib demo_fs ''notes.txt'' ''error'' False =
       Inr \<lparr>printed = [], returned = [''notes.txt:disk error'']\<rparr>
   \<and> SearchInGz small_lib demo_fs ''notes.txt.gz'' ''error'' False =
       Inr \<lparr>printed = [], returned = [''notes.txt.gz:disk error'']\<rparr>
   \<and> SearchInBz2 small_lib demo_fs ''notes.txt.bz2'' ''error'' False =
       Inr \<lparr>printed = [], returned = [''notes.txt.bz2:disk error'']\<rparr>"
proof -
  have ls: "\<forall>l\<in>set [''disk error'', ''all fine'']. nl \<notin> set l"
    by simp
  have fr: "nl \<notin> set ''last error''"
    by simp
  have rec: "match_record small_lib name ''disk error'' = name @ '':disk error''" for name
    by (simp add: match_record_def small_lib_def ascii_strip_def is_space_def)
  show ?thesis
    using C1_unterminated_fragment_dropped [OF demo_compile ls fr,
        of demo_fs "''notes.txt''" "\<lparr>pending = notes_txt, failure = None\<rparr>"
           "''notes.txt.gz''" "\<lparr>pending = CHR 0x1F # notes_txt, failure = None\<rparr>"
           "''notes.txt.bz2''" "\<lparr>pending = rle_compress notes_txt, failure = None\<rparr>"]
    by (simp add: demo_fs_def demo_gz_stream demo_bz2_stream notes_txt_lines [symmetric] rec)
qed

lemma complete_lines_no_nl: "l \<in> set (complete_lines content) \<Longrightarrow> nl \<notin> set l"
  unfolding complete_lines_split
  by (meson in_set_butlastD py_split_no_sep)

text \<open>
  C2. For every positive chunk size, \<open>SearchInFlat\<close> on a file that reads without
  failure returns the records of the complete lines of the whole content that match,
  in order: the result does not depend on where the reads cut the content, and the
  pattern is only ever applied to a piece that holds no newline.
\<close>

theorem C2_chunk_size_independent:
  assumes "0 < n"
    and "fs filename = Some (Regular f)"
    and "failure f = None"
    and "re_compile lib pattern ic = Inr search"
  shows "SearchInFlat_with n lib fs filename pattern ic =
           Inr \<lparr>printed = [],
                returned = map (match_record lib filename)
                             (filter search (complete_lines (pending f)))\<rparr>
         \<and> (\<forall>l\<in>set (complete_lines (pending f)). nl \<notin> set l)"
  using assms
  by (simp add: flat_regular failure_records_def matching_records_def complete_lines_no_nl)

lemma two_line_compile:
  "re_compile small_lib (''error'' @ [nl] @ ''all'') False = Inr (contains (''error'' @ [nl] @ ''all''))"
  by (simp add: small_lib_def literal_compile_def)

lemma notes_txt_complete: "complete_lines notes_txt = [''disk error'', ''all fine'']"
  by (simp add: notes_txt_def complete_lines_def)

lemma demo_record:
  "match_record small_lib name ''disk error'' = name @ '':disk error''"
  by (simp add: match_record_def small_lib_def ascii_strip_def is_space_def)

theorem C2_witness:
  "take 4 notes_txt = ''disk''
   \<and> SearchInFlat_with 4 small_lib demo_fs ''notes.txt'' ''error'' False =
       Inr \<lparr>printed = [], returned = [''notes.txt:disk error'']\<rparr>
   \<and> contains (''error'' @ [nl] @ ''all'') notes_txt
   \<and> SearchInFlat_with 4 small_lib demo_fs ''notes.txt'' (''error'' @ [nl] @ ''all'') False =
       Inr \<lparr>printed = [], returned = []\<rparr>"
proof -
  have reg: "demo_fs ''notes.txt'' = Some (Regular \<lparr>pending = notes_txt, failure = None\<rparr>)"
    by (simp add: demo_fs_def)
  have "take 4 notes_txt = ''disk''"
    by (simp add: notes_txt_def)
  moreover have "contains (''error'' @ [nl] @ ''all'') notes_txt"
    by (simp add: notes_txt_def)
  moreover note
    C2_chunk_size_independent [of 4 demo_fs "''notes.txt''" _ small_lib, OF _ reg _ demo_compile]
    C2_chunk_size_independent [of 4 demo_fs "''notes.txt''" _ small_lib, OF _ reg _ two_line_compile]
  ultimately show ?thesis
    by (simp add: notes_txt_complete demo_record)
qed

text \<open>
  C3. A plain file, a gzip file whose \<open>GzipFile\<close> delivers the plain file's content
  and a bzip2 file whose decompressor releases that content: the three searchers
  return the records of the same lines in the same order, each under the name of the
  file it read. None of them has a record for an unterminated last line.
\<close>

theorem C3_compressed_search_agrees:
  assumes "re_compile lib pattern ic = Inr search"
    and "fs flat = Some (Regular t)"
    and "failure t = None"
  shows "SearchInFlat lib fs flat pattern ic =
           Inr \<lparr>printed = [],
                returned = map (match_record lib flat)
                             (filter search (complete_lines (pending t)))\<rparr>
         \<and> (fs gzname = Some (Regular g)
               \<and> GzipFile lib g = \<lparr>pending = pending t, failure = None\<rparr>
              \<longrightarrow> SearchInGz lib fs gzname pattern ic =
                    Inr \<lparr>printed = [],
                         returned = map (match_record lib gzname)
                                      (filter search (complete_lines (pending t)))\<rparr>)
         \<and> (fs bzname = Some (Regular b)
               \<and> bz2_stream lib CHUNK_SIZE b = \<lparr>pending = pending t, failure = None\<rparr>
              \<longrightarrow> SearchInBz2 lib fs bzname pattern ic =
                    Inr \<lparr>printed = [],
                         returned = map (match_record lib bzname)
                                      (filter search (complete_lines (pending t)))\<rparr>)"
  using assms
  by (simp add: SearchInFlat_def SearchInGz_def SearchInBz2_def
      flat_regular [OF CHUNK_SIZE_pos] gz_regular [OF CHUNK_SIZE_pos]
      bz2_regular [OF CHUNK_SIZE_pos] failure_records_def matching_records_def)

lemma fine_compile: "re_compile small_lib ''fine'' False = Inr (contains ''fine'')"
  by (simp add: small_lib_def literal_compile_def)

lemma fine_record:
  "match_record small_lib name ''all fine'' = name @ '':all fine''"
  by (simp add: match_record_def small_lib_def ascii_strip_def is_space_def)

theorem C3_witness:
  "SearchInFlat small_lib demo_fs ''notes.txt'' ''fine'' False =
     Inr \<lparr>printed = [], returned = [''notes.txt:all fine'']\<rparr>
   \<and> SearchInGz small_lib demo_fs ''notes.txt.gz'' ''fine'' False =
       Inr \<lparr>printed = [], returned = [''notes.txt.gz:all fine'']\<rparr>
   \<and> SearchInBz2 small_lib demo_fs ''notes.txt.bz2'' ''fine'' False =
       Inr \<lparr>printed = [], returned = [''notes.txt.bz2:all fine'']\<rparr>"
proof -
  have reg: "demo_fs ''notes.txt'' = Some (Regular \<lparr>pending = notes_txt, failure = None\<rparr>)"
    by (simp add: demo_fs_def)
  show ?thesis
    using C3_compressed_search_agrees [where fs = demo_fs and flat = "''notes.txt''"
        and gzname = "''notes.txt.gz''"
        and g = "\<lparr>pending = CHR 0x1F # notes_txt, failure = None\<rparr>"
        and bzname = "''notes.txt.bz2''"
        and b = "\<lparr>pending = rle_compress notes_txt, failure = None\<rparr>",
        OF fine_compile reg]
    by (simp add: demo_fs_def demo_gz_stream demo_bz2_stream notes_txt_complete fine_record)
qed

section \<open>The results of a pass\<close>

lemma collect_acc: "collect countOnly retVal matches = retVal @ collect countOnly [] matches"
  by (simp add: collect_def)

lemma gather_all_Inr:
  "gather countOnly (map Inr results) retVal =
     Inr (retVal @ concat (map (\<lambda>w. collect countOnly [] (returned w)) results))"
proof (induction results arbitrary: retVal)
  case Nil
  show ?case by simp
next
  case (Cons w results)
  show ?case
    by (simp add: Cons.IH collect_acc [of countOnly retVal])
qed

lemma map_func_Inr:
  "\<forall>file\<in>set files. \<exists>w. func file pattern ic = Inr w \<Longrightarrow>
   \<exists>results. map (\<lambda>file. func file pattern ic) files = map Inr results
     \<and> map returned results = map (\<lambda>file. records_of (func file pattern ic)) files"
proof (induction files)
  case Nil
  show ?case by simp
next
  case (Cons x files)
  then obtain results where r: "map (\<lambda>file. func file pattern ic) files = map Inr results"
      "map returned results = map (\<lambda>file. records_of (func file pattern ic)) files"
    by auto
  from Cons.prems obtain w where w: "func x pattern ic = Inr w"
    by auto
  have "map (\<lambda>file. func file pattern ic) (x # files) = map Inr (w # results)
      \<and> map returned (w # results) = map (\<lambda>file. records_of (func file pattern ic)) (x # files)"
    using r w by (simp add: records_of_def)
  then show ?case by blast
qed

lemma parallel_pass_output:
  assumes "0 < buffPonies"
    and "\<forall>file\<in>set files. \<exists>w. func file pattern ic = Inr w"
  shows "SearchFilesInParallel func files pattern ic countOnly buffPonies =
           Inr (pass_output func files pattern ic countOnly)"
proof -
  from map_func_Inr [where func = func and pattern = pattern and ic = ic, OF assms(2)] obtain results where
    r: "map (\<lambda>file. func file pattern ic) files = map Inr results"
       "map returned results = map (\<lambda>file. records_of (func file pattern ic)) files"
    by blast
  have "concat (map (\<lambda>w. collect countOnly [] (returned w)) results) =
      concat (map (collect countOnly []) (map returned results))"
    by (simp add: comp_def)
  also have "\<dots> = pass_output func files pattern ic countOnly"
    unfolding r(2) pass_output_def by (simp add: comp_def)
  finally show ?thesis
    using assms(1) r(1) by (simp add: SearchFilesInParallel_def gather_all_Inr)
qed

lemma pass_output_append:
  "pass_output func (xs @ ys) pattern ic countOnly =
     pass_output func xs pattern ic countOnly @ pass_output func ys pattern ic countOnly"
  by (simp add: pass_output_def)

lemma pass_output_Cons:
  "pass_output func (file # files) pattern ic countOnly =
     collect countOnly [] (records_of (func file pattern ic))
     @ pass_output func files pattern ic countOnly"
  by (simp add: pass_output_def)

lemma pass_output_Nil: "pass_output func [] pattern ic countOnly = []"
  by (simp add: pass_output_def)

lemma searchers_return:
  "re_compile lib pattern ic = Inr search \<Longrightarrow>
   (\<exists>w. SearchInFlat lib fs file pattern ic = Inr w)
   \<and> (\<exists>w. SearchInGz lib fs file pattern ic = Inr w)
   \<and> (\<exists>w. SearchInBz2 lib fs file pattern ic = Inr w)"
  by (simp add: SearchInFlat_def SearchInFlat_with_def SearchInGz_def SearchInGz_with_def
      SearchInBz2_def SearchInBz2_with_def)

lemma DetectFileType_cases:
  "DetectFileType file = ''bz'' \<or> DetectFileType file = ''gz'' \<or> DetectFileType file = ''txt''"
  by (simp add: DetectFileType_def)

lemma classify_eq:
  "classify allFiles (bz, gz, flat) =
     (bz @ files_of_type ''bz'' allFiles, gz @ files_of_type ''gz'' allFiles,
      flat @ files_of_type ''txt'' allFiles)"
proof (induction allFiles arbitrary: bz gz flat)
  case Nil
  show ?case by (simp add: files_of_type_def)
next
  case (Cons x allFiles)
  from DetectFileType_cases [of x] show ?case
    by (auto simp: Cons.IH files_of_type_def Let_def)
qed

lemma run_pass_output:
  assumes "0 < buffPonies"
    and "\<forall>file\<in>set files. \<exists>w. func file pattern ic = Inr w"
  shows "run_pass func files pattern ic countOnly buffPonies =
           Inr (pass_output func files pattern ic countOnly)"
  using parallel_pass_output [where func = func and pattern = pattern and ic = ic, OF assms, of countOnly]
  by (simp add: run_pass_def pass_output_Nil)

section \<open>The model on the example files, and the label of a count record\<close>

lemma demo_flat_notes:
  "SearchInFlat small_lib demo_fs ''notes.txt'' ''error'' False =
     Inr \<lparr>printed = [], returned = [''notes.txt:disk error'']\<rparr>"
proof -
  have "demo_fs ''notes.txt'' = Some (Regular \<lparr>pending = notes_txt, failure = None\<rparr>)"
    by (simp add: demo_fs_def)
  from flat_regular [where fs = demo_fs, OF CHUNK_SIZE_pos this demo_compile] show ?thesis
    by (simp add: SearchInFlat_def matching_records_def notes_txt_complete demo_record
        failure_records_def)
qed

lemma demo_gz_notes:
  "SearchInGz small_lib demo_fs ''notes.txt.gz'' ''error'' False =
     Inr \<lparr>printed = [], returned = [''notes.txt.gz:disk error'']\<rparr>"
proof -
  have "demo_fs ''notes.txt.gz'' =
      Some (Regular \<lparr>pending = CHR 0x1F # notes_txt, failure = None\<rparr>)"
    by (simp add: demo_fs_def)
  from gz_regular [where fs = demo_fs, OF CHUNK_SIZE_pos this demo_compile] show ?thesis
    by (simp add: SearchInGz_def matching_records_def notes_txt_complete demo_record
        failure_records_def demo_gz_stream)
qed

lemma demo_bz2_notes:
  "SearchInBz2 small_lib demo_fs ''notes.txt.bz2'' ''error'' False =
     Inr \<lparr>printed = [], returned = [''notes.txt.bz2:disk error'']\<rparr>"
proof -
  have "demo_fs ''notes.txt.bz2'' =
      Some (Regular \<lparr>pending = rle_compress notes_txt, failure = None\<rparr>)"
    by (simp add: demo_fs_def)
  from bz2_regular [where fs = demo_fs, OF CHUNK_SIZE_pos this demo_compile] show ?thesis
    by (simp add: SearchInBz2_def matching_records_def notes_txt_complete demo_record
        failure_records_def demo_bz2_stream)
qed


lemma demo_flat_broken:
  "SearchInFlat small_lib demo_fs ''broken.txt'' ''error'' False =
     Inr \<lparr>printed = [],
          returned = [''broken.txt:error one'',
            ''[ERROR] Could not read broken.txt: [Errno 5] Input/output error'']\<rparr>"
proof -
  have "demo_fs ''broken.txt'' =
      Some (Regular \<lparr>pending = broken_txt, failure = Some ''[Errno 5] Input/output error''\<rparr>)"
    by (simp add: demo_fs_def)
  from flat_regular [where fs = demo_fs, OF CHUNK_SIZE_pos this demo_compile] show ?thesis
    by (simp add: SearchInFlat_def matching_records_def complete_lines_def match_record_def
        small_lib_def ascii_strip_def is_space_def failure_records_def could_not_read_def
        broken_txt_def)
qed

lemma demo_flat_locked:
  "SearchInFlat small_lib demo_fs ''locked.txt'' ''error'' False =
     Inr \<lparr>printed = [],
          returned = [''[ERROR] Could not read locked.txt: [Errno 13] Permission denied'']\<rparr>"
  by (simp add: SearchInFlat_def SearchInFlat_with_def demo_fs_def isfile_def open_rb_def
      small_lib_def literal_compile_def could_not_read_def)

lemma str_nat_1: "str_nat 1 = ''1''"
  by (simp add: str_nat.simps)


lemma hd_py_split: "hd (py_split sep xs) = takeWhile (\<lambda>c. c \<noteq> sep) xs"
  by (induction xs) (auto split: list.splits simp: py_split_not_Nil)

lemma count_label_takeWhile: "count_label m = takeWhile (\<lambda>c. c \<noteq> CHR '':'') m"
  by (simp add: count_label_def hd_py_split)

lemma takeWhile_colon:
  "takeWhile (\<lambda>c. c \<noteq> CHR '':'') (name @ CHR '':'' # rest) = takeWhile (\<lambda>c. c \<noteq> CHR '':'') name"
  by (induction name) auto

lemma takeWhile_no_colon: "CHR '':'' \<notin> set (takeWhile (\<lambda>c. c \<noteq> CHR '':'') name)"
  by (induction name) auto

lemma count_label_match:
  "count_label (match_record lib filename line) = takeWhile (\<lambda>c. c \<noteq> CHR '':'') filename"
  by (simp add: count_label_takeWhile match_record_def takeWhile_colon)

lemma count_label_error:
  "count_label (could_not_read filename e) =
     ''[ERROR] Could not read '' @ takeWhile (\<lambda>c. c \<noteq> CHR '':'') filename"
  by (simp add: count_label_takeWhile could_not_read_def takeWhile_colon)

lemma takeWhile_colon_id:
  "takeWhile (\<lambda>c. c \<noteq> CHR '':'') name = name \<longleftrightarrow> CHR '':'' \<notin> set name"
  by (induction name) auto

lemma error_label_not_name: "count_label (could_not_read filename e) \<noteq> filename"
proof
  assume eq: "count_label (could_not_read filename e) = filename"
  have "CHR '':'' \<notin> set (count_label (could_not_read filename e))"
    using takeWhile_no_colon [of filename] by (simp add: count_label_error)
  with eq have "CHR '':'' \<notin> set filename"
    by simp
  then have "takeWhile (\<lambda>c. c \<noteq> CHR '':'') filename = filename"
    using takeWhile_colon_id [of filename] by blast
  with eq have "''[ERROR] Could not read '' @ filename = filename"
    by (simp add: count_label_error)
  then have "length (''[ERROR] Could not read '' @ filename) = length filename"
    by (rule arg_cong)
  then show False
    by simp
qed

lemma error_record_not_match:
  "could_not_read filename e \<noteq> match_record lib filename line"
proof
  assume "could_not_read filename e = match_record lib filename line"
  then have "count_label (could_not_read filename e) = count_label (match_record lib filename line)"
    by simp
  then have "length (''[ERROR] Could not read '' @ takeWhile (\<lambda>c. c \<noteq> CHR '':'') filename) =
      length (takeWhile (\<lambda>c. c \<noteq> CHR '':'') filename)"
    by (simp only: count_label_error count_label_match)
  then show False
    by simp
qed

lemma error_record_not_matching:
  "could_not_read filename e \<notin> set (matching_records lib search filename content)"
  by (auto simp: matching_records_def error_record_not_match)

section \<open>The claims about the aggregator\<close>







text \<open>
  C10. The label of a count record is what precedes the first colon of the first
  record of the file. For a match record that is the file name exactly when the name
  holds no colon; for an error record it is never the file name. The last part shows
  the label in the output of a count-mode pass over one file.
\<close>

theorem C10_count_label:
  "count_label m = takeWhile (\<lambda>c. c \<noteq> CHR '':'') m
   \<and> (count_label (match_record lib filename line) = filename \<longleftrightarrow> CHR '':'' \<notin> set filename)
   \<and> count_label (could_not_read filename e) \<noteq> filename
   \<and> (0 < buffPonies \<and> func filename pattern ic = Inr w \<and> returned w = m # ms
        \<longrightarrow> SearchFilesInParallel func [filename] pattern ic True buffPonies =
              Inr [count_label m @ '':'' @ str_nat (Suc (length ms))])"
proof (intro conjI impI)
  show "count_label m = takeWhile (\<lambda>c. c \<noteq> CHR '':'') m"
    by (rule count_label_takeWhile)
  show "count_label (match_record lib filename line) = filename \<longleftrightarrow> CHR '':'' \<notin> set filename"
    by (simp only: count_label_match takeWhile_colon_id)
  show "count_label (could_not_read filename e) \<noteq> filename"
    by (rule error_label_not_name)
  assume "0 < buffPonies \<and> func filename pattern ic = Inr w \<and> returned w = m # ms"
  then show "SearchFilesInParallel func [filename] pattern ic True buffPonies =
      Inr [count_label m @ '':'' @ str_nat (Suc (length ms))]"
    by (simp add: SearchFilesInParallel_def collect_def count_record_def)
qed

theorem C10_witness:
  "count_label (match_record small_lib ''C:notes.txt'' ''disk error'') = ''C''
   \<and> count_label (match_record small_lib ''notes.txt'' ''disk error'') = ''notes.txt''
   \<and> SearchFilesInParallel (SearchInFlat small_lib demo_fs) [''locked.txt''] ''error'' False True 1 =
       Inr [''[ERROR] Could not read locked.txt:1'']"
proof -
  note C10_count_label [where lib = small_lib and line = "''disk error''" and buffPonies = 1
      and func = "SearchInFlat small_lib demo_fs" and filename = "''locked.txt''"
      and pattern = "''error''" and ic = False and ms = "[]"
      and m = "''[ERROR] Could not read locked.txt: [Errno 13] Permission denied''"
      and w = "\<lparr>printed = [],
        returned = [''[ERROR] Could not read locked.txt: [Errno 13] Permission denied'']\<rparr>"]
  moreover note C10_count_label [where lib = small_lib and filename = "''C:notes.txt''"
      and line = "''disk error''" and m = "match_record small_lib ''C:notes.txt'' ''disk error''"]
  moreover note C10_count_label [where lib = small_lib and filename = "''notes.txt''"
      and line = "''disk error''"]
  ultimately show ?thesis
    using str_nat_1 by (simp add: demo_flat_locked demo_record)
qed

section \<open>The claim about the orchestrator\<close>

text \<open>
  C4. When the run reaches the search and no worker raises, \<open>matchedLines\<close> is the
  output of the bzip2 files, then of the gzip files, then of the plain files, whatever
  order the paths were given in; and each pass, whatever files it is given, returns
  the contribution of each file at the place that file has in the list.
\<close>

theorem C4_grouped_by_encoding:
  assumes "arg_pattern a = Some pattern" and "pattern \<noteq> []"
    and "\<not> arg_help a" and "arg_files a \<noteq> []"
    and "0 < arg_workers a"
    and "re_compile lib pattern (arg_ignore_case a) = Inr search"
    and "allFiles = resolve fs (arg_recursive a) (arg_files a) []"
  shows "Main lib fs a =
           MatchedLines
             (pass_output (SearchInBz2 lib fs) (files_of_type ''bz'' allFiles) pattern
                (arg_ignore_case a) (arg_count a)
              @ pass_output (SearchInGz lib fs) (files_of_type ''gz'' allFiles) pattern
                  (arg_ignore_case a) (arg_count a)
              @ pass_output (SearchInFlat lib fs) (files_of_type ''txt'' allFiles) pattern
                  (arg_ignore_case a) (arg_count a))
         \<and> (\<forall>func\<in>{SearchInBz2 lib fs, SearchInGz lib fs, SearchInFlat lib fs}.
              SearchFilesInParallel func files pattern (arg_ignore_case a) (arg_count a)
                (arg_workers a) =
              Inr (concat (map (\<lambda>file. collect (arg_count a) []
                     (records_of (func file pattern (arg_ignore_case a)))) files)))"
proof
  let ?ic = "arg_ignore_case a" and ?co = "arg_count a" and ?w = "arg_workers a"
  have ret: "\<forall>file\<in>set fl. \<exists>w. func file pattern ?ic = Inr w"
    if "func \<in> {SearchInBz2 lib fs, SearchInGz lib fs, SearchInFlat lib fs}" for func fl
    using that searchers_return [OF assms(6), of fs] by auto
  have pass: "run_pass func fl pattern ?ic ?co ?w = Inr (pass_output func fl pattern ?ic ?co)"
    if "func \<in> {SearchInBz2 lib fs, SearchInGz lib fs, SearchInFlat lib fs}" for func fl
    using run_pass_output [where func = func and pattern = pattern and ic = ?ic,
        OF assms(5) ret [OF that]] .
  have cl: "classify allFiles ([], [], []) =
      (files_of_type ''bz'' allFiles, files_of_type ''gz'' allFiles,
       files_of_type ''txt'' allFiles)"
    by (simp add: classify_eq)
  show "Main lib fs a =
      MatchedLines
        (pass_output (SearchInBz2 lib fs) (files_of_type ''bz'' allFiles) pattern ?ic ?co
         @ pass_output (SearchInGz lib fs) (files_of_type ''gz'' allFiles) pattern ?ic ?co
         @ pass_output (SearchInFlat lib fs) (files_of_type ''txt'' allFiles) pattern ?ic ?co)"
    using assms(1-4) cl
    by (simp add: Main_def assms(7) [symmetric] pass)
  show "\<forall>func\<in>{SearchInBz2 lib fs, SearchInGz lib fs, SearchInFlat lib fs}.
      SearchFilesInParallel func files pattern ?ic ?co ?w =
      Inr (concat (map (\<lambda>file. collect ?co [] (records_of (func file pattern ?ic))) files))"
  proof
    fix func
    assume f: "func \<in> {SearchInBz2 lib fs, SearchInGz lib fs, SearchInFlat lib fs}"
    from parallel_pass_output [where func = func and pattern = pattern and ic = ?ic,
        OF assms(5) ret [OF f]]
    show "SearchFilesInParallel func files pattern ?ic ?co ?w =
        Inr (concat (map (\<lambda>file. collect ?co [] (records_of (func file pattern ?ic))) files))"
      by (simp add: pass_output_def)
  qed
qed

lemma demo_resolve:
  "resolve demo_fs False [''notes.txt'', ''notes.txt.gz'', ''notes.txt.bz2''] [] =
     [''notes.txt'', ''notes.txt.gz'', ''notes.txt.bz2'']"
  by (simp add: demo_fs_def isdir_def isfile_def)

lemma demo_types:
  "DetectFileType ''notes.txt'' = ''txt''"
  "DetectFileType ''notes.txt.gz'' = ''gz''"
  "DetectFileType ''notes.txt.bz2'' = ''bz''"
  by (simp_all add: DetectFileType_def endswith_def)

theorem C4_witness:
  "arg_files demo_args = [''notes.txt'', ''notes.txt.gz'', ''notes.txt.bz2'']
   \<and> Main small_lib demo_fs demo_args =
       MatchedLines [''notes.txt.bz2:disk error'', ''notes.txt.gz:disk error'',
                     ''notes.txt:disk error'']"
proof -
  have a: "arg_pattern demo_args = Some ''error''" "''error'' \<noteq> []" "\<not> arg_help demo_args"
      "arg_files demo_args \<noteq> []" "0 < arg_workers demo_args"
    by (simp_all add: demo_args_def)
  have c: "re_compile small_lib ''error'' (arg_ignore_case demo_args) = Inr (contains ''error'')"
    by (simp add: demo_args_def demo_compile)
  have r: "[''notes.txt'', ''notes.txt.gz'', ''notes.txt.bz2''] =
      resolve demo_fs (arg_recursive demo_args) (arg_files demo_args) []"
    by (simp add: demo_args_def demo_resolve del: resolve.simps)
  from C4_grouped_by_encoding [OF a c r] show ?thesis
    by (simp add: demo_args_def files_of_type_def demo_types pass_output_def records_of_def
        collect_def demo_flat_notes demo_gz_notes demo_bz2_notes)
qed

section \<open>The claim about failures in the middle of a file\<close>

text \<open>
  C7. A file whose read or decode raises part-way: the searcher returns the records of
  the complete lines it had matched, then one error record, which is none of the match
  records; it does not raise. In a pass, the output with that file in the list is the
  output without it, with that file's contribution inserted at its place.
\<close>

theorem C7_failure_contained:
  assumes "re_compile lib pattern ic = Inr search"
  shows "(fs flat = Some (Regular t) \<and> failure t = Some e
            \<longrightarrow> SearchInFlat lib fs flat pattern ic =
                  Inr \<lparr>printed = [],
                       returned = matching_records lib search flat (pending t)
                                  @ [could_not_read flat e]\<rparr>
                \<and> could_not_read flat e \<notin> set (matching_records lib search flat (pending t)))
       \<and> (fs gzname = Some (Regular g) \<and> failure (GzipFile lib g) = Some e
            \<longrightarrow> SearchInGz lib fs gzname pattern ic =
                  Inr \<lparr>printed = [],
                       returned = matching_records lib search gzname (pending (GzipFile lib g))
                                  @ [could_not_read gzname e]\<rparr>
                \<and> could_not_read gzname e
                    \<notin> set (matching_records lib search gzname (pending (GzipFile lib g))))
       \<and> (fs bzname = Some (Regular b) \<and> failure (bz2_stream lib CHUNK_SIZE b) = Some e
            \<longrightarrow> SearchInBz2 lib fs bzname pattern ic =
                  Inr \<lparr>printed = [],
                       returned = matching_records lib search bzname
                                    (pending (bz2_stream lib CHUNK_SIZE b))
                                  @ [could_not_read bzname e]\<rparr>
                \<and> could_not_read bzname e
                    \<notin> set (matching_records lib search bzname
                             (pending (bz2_stream lib CHUNK_SIZE b))))
       \<and> (0 < buffPonies
             \<and> (\<forall>file\<in>set (before @ bad # after). \<exists>w. func file pattern ic = Inr w)
            \<longrightarrow> SearchFilesInParallel func (before @ bad # after) pattern ic countOnly buffPonies =
                  Inr (pass_output func before pattern ic countOnly
                       @ collect countOnly [] (records_of (func bad pattern ic))
                       @ pass_output func after pattern ic countOnly)
                \<and> SearchFilesInParallel func (before @ after) pattern ic countOnly buffPonies =
                    Inr (pass_output func before pattern ic countOnly
                         @ pass_output func after pattern ic countOnly))"
proof (intro conjI impI)
  assume "fs flat = Some (Regular t) \<and> failure t = Some e"
  with assms show "SearchInFlat lib fs flat pattern ic =
      Inr \<lparr>printed = [],
           returned = matching_records lib search flat (pending t) @ [could_not_read flat e]\<rparr>"
    by (simp add: SearchInFlat_def flat_regular [OF CHUNK_SIZE_pos] failure_records_def)
next
  assume "fs gzname = Some (Regular g) \<and> failure (GzipFile lib g) = Some e"
  with assms show "SearchInGz lib fs gzname pattern ic =
      Inr \<lparr>printed = [],
           returned = matching_records lib search gzname (pending (GzipFile lib g))
                      @ [could_not_read gzname e]\<rparr>"
    by (simp add: SearchInGz_def gz_regular [OF CHUNK_SIZE_pos] failure_records_def)
next
  assume "fs bzname = Some (Regular b) \<and> failure (bz2_stream lib CHUNK_SIZE b) = Some e"
  with assms show "SearchInBz2 lib fs bzname pattern ic =
      Inr \<lparr>printed = [],
           returned = matching_records lib search bzname (pending (bz2_stream lib CHUNK_SIZE b))
                      @ [could_not_read bzname e]\<rparr>"
    by (simp add: SearchInBz2_def bz2_regular [OF CHUNK_SIZE_pos] failure_records_def)
next
  assume b: "0 < buffPonies
      \<and> (\<forall>file\<in>set (before @ bad # after). \<exists>w. func file pattern ic = Inr w)"
  then have w: "0 < buffPonies"
    and all: "\<forall>file\<in>set (before @ bad # after). \<exists>w. func file pattern ic = Inr w"
    by blast+
  from all have rest: "\<forall>file\<in>set (before @ after). \<exists>w. func file pattern ic = Inr w"
    by auto
  from parallel_pass_output [where func = func and pattern = pattern and ic = ic, OF w all]
  show "SearchFilesInParallel func (before @ bad # after) pattern ic countOnly buffPonies =
      Inr (pass_output func before pattern ic countOnly
           @ collect countOnly [] (records_of (func bad pattern ic))
           @ pass_output func after pattern ic countOnly)"
    by (simp add: pass_output_append pass_output_Cons)
  from parallel_pass_output [where func = func and pattern = pattern and ic = ic, OF w rest]
  show "SearchFilesInParallel func (before @ after) pattern ic countOnly buffPonies =
      Inr (pass_output func before pattern ic countOnly
           @ pass_output func after pattern ic countOnly)"
    by (simp add: pass_output_append)
qed (rule error_record_not_matching)+

lemma demo_bad_bz2:
  "bz2_stream small_lib CHUNK_SIZE \<lparr>pending = bad_bz2, failure = None\<rparr> =
     \<lparr>pending = [], failure = Some ''Invalid data stream''\<rparr>"
proof -
  have "chop CHUNK_SIZE bad_bz2 = [bad_bz2]"
    by (rule chop_short) (simp_all add: bad_bz2_def rle_compress_def CHUNK_SIZE_def)
  then show ?thesis
    by (simp add: bz2_stream_def small_lib_def bad_bz2_def rle_compress_def)
qed

lemma demo_not_gz:
  "GzipFile small_lib \<lparr>pending = notes_txt, failure = None\<rparr> =
     \<lparr>pending = [], failure = Some ''Not a gzipped file''\<rparr>"
  by (simp add: small_lib_def stored_GzipFile_def notes_txt_def)

lemma demo_broken_records:
  "matching_records small_lib (contains ''error'') ''broken.txt'' broken_txt =
     [''broken.txt:error one'']"
  by (simp add: matching_records_def complete_lines_def match_record_def small_lib_def
      ascii_strip_def is_space_def broken_txt_def)

theorem C7_witness:
  "SearchInFlat small_lib demo_fs ''broken.txt'' ''error'' False =
     Inr \<lparr>printed = [],
          returned = [''broken.txt:error one'',
            ''[ERROR] Could not read broken.txt: [Errno 5] Input/output error'']\<rparr>
   \<and> SearchInGz small_lib demo_fs ''notes.txt'' ''error'' False =
       Inr \<lparr>printed = [],
            returned = [''[ERROR] Could not read notes.txt: Not a gzipped file'']\<rparr>
   \<and> SearchInBz2 small_lib demo_fs ''bad.bz2'' ''error'' False =
       Inr \<lparr>printed = [],
            returned = [''[ERROR] Could not read bad.bz2: Invalid data stream'']\<rparr>
   \<and> SearchFilesInParallel (SearchInFlat small_lib demo_fs)
       [''notes.txt'', ''broken.txt'', ''locked.txt''] ''error'' False False 2 =
       Inr ([''notes.txt:disk error'']
            @ [''broken.txt:error one'',
               ''[ERROR] Could not read broken.txt: [Errno 5] Input/output error'']
            @ [''[ERROR] Could not read locked.txt: [Errno 13] Permission denied''])
   \<and> SearchFilesInParallel (SearchInFlat small_lib demo_fs)
       [''notes.txt'', ''locked.txt''] ''error'' False False 2 =
       Inr ([''notes.txt:disk error'']
            @ [''[ERROR] Could not read locked.txt: [Errno 13] Permission denied''])"
proof -
  have ret: "\<forall>file\<in>set ([''notes.txt''] @ ''broken.txt'' # [''locked.txt'']).
      \<exists>w. SearchInFlat small_lib demo_fs file ''error'' False = Inr w"
    by (simp add: demo_flat_notes demo_flat_broken demo_flat_locked)
  have f1: "demo_fs ''broken.txt'' =
      Some (Regular \<lparr>pending = broken_txt, failure = Some ''[Errno 5] Input/output error''\<rparr>)"
    by (simp add: demo_fs_def)
  have f2: "demo_fs ''notes.txt'' = Some (Regular \<lparr>pending = notes_txt, failure = None\<rparr>)"
    by (simp add: demo_fs_def)
  have f3: "demo_fs ''bad.bz2'' = Some (Regular \<lparr>pending = bad_bz2, failure = None\<rparr>)"
    by (simp add: demo_fs_def)
  note C7_failure_contained [where fs = demo_fs and lib = small_lib and pattern = "''error''"
      and ic = False and search = "contains ''error''"
      and flat = "''broken.txt''"
      and t = "\<lparr>pending = broken_txt, failure = Some ''[Errno 5] Input/output error''\<rparr>"
      and gzname = "''notes.txt''" and g = "\<lparr>pending = notes_txt, failure = None\<rparr>"
      and e = "''[Errno 5] Input/output error''"
      and buffPonies = 2 and func = "SearchInFlat small_lib demo_fs"
      and before = "[''notes.txt'']" and bad = "''broken.txt''" and after = "[''locked.txt'']"
      and countOnly = False, OF demo_compile]
  moreover note C7_failure_contained [where fs = demo_fs and lib = small_lib
      and pattern = "''error''" and ic = False and search = "contains ''error''"
      and gzname = "''notes.txt''" and g = "\<lparr>pending = notes_txt, failure = None\<rparr>"
      and e = "''Not a gzipped file''", OF demo_compile, THEN conjunct2, THEN conjunct1]
  moreover note C7_failure_contained [where fs = demo_fs and lib = small_lib
      and pattern = "''error''" and ic = False and search = "contains ''error''"
      and bzname = "''bad.bz2''"
      and b = "\<lparr>pending = bad_bz2, failure = None\<rparr>"
      and e = "''Invalid data stream''", OF demo_compile, THEN conjunct2, THEN conjunct2,
      THEN conjunct1]
  ultimately show ?thesis
    using ret f1 f2 f3
    by (simp add: demo_not_gz demo_bad_bz2 demo_broken_records could_not_read_def
        pass_output_def records_of_def collect_def
        demo_flat_notes demo_flat_broken demo_flat_locked)
       (simp add: matching_records_def complete_lines_def)
qed

section \<open>The claims about missing files, the chunk buffer and the worker default\<close>

text \<open>
  C6, as the program has it. A path that is not a file: each searcher prints the
  File-not-found line and returns the empty list. A file whose \<open>open\<close> raises,
  searched with a pattern that compiles: each searcher prints nothing and returns one
  error record. In neither case does the searcher raise.
\<close>

theorem C6_missing_or_unopenable:
  "(\<not> isfile fs filename
      \<longrightarrow> SearchInFlat lib fs filename pattern ic =
            Inr \<lparr>printed = [file_not_found filename], returned = []\<rparr>
          \<and> SearchInBz2 lib fs filename pattern ic =
              Inr \<lparr>printed = [file_not_found filename], returned = []\<rparr>
          \<and> SearchInGz lib fs filename pattern ic =
              Inr \<lparr>printed = [file_not_found filename], returned = []\<rparr>)
   \<and> (fs filename = Some (Unopenable e) \<and> re_compile lib pattern ic = Inr search
      \<longrightarrow> SearchInFlat lib fs filename pattern ic =
            Inr \<lparr>printed = [], returned = [could_not_read filename e]\<rparr>
          \<and> SearchInBz2 lib fs filename pattern ic =
              Inr \<lparr>printed = [], returned = [could_not_read filename e]\<rparr>
          \<and> SearchInGz lib fs filename pattern ic =
              Inr \<lparr>printed = [], returned = [could_not_read filename e]\<rparr>)"
  by (simp add: SearchInFlat_def SearchInFlat_with_def SearchInBz2_def SearchInBz2_with_def
      SearchInGz_def SearchInGz_with_def isfile_def open_rb_def)

theorem C6_witness:
  "SearchInGz small_lib demo_fs ''absent.gz'' ''error'' False =
     Inr \<lparr>printed = [''[ERROR] File not found: absent.gz''], returned = []\<rparr>
   \<and> SearchInBz2 small_lib demo_fs ''locked.txt'' ''error'' False =
       Inr \<lparr>printed = [],
            returned = [''[ERROR] Could not read locked.txt: [Errno 13] Permission denied'']\<rparr>"
proof -
  have "\<not> isfile demo_fs ''absent.gz''"
    by (simp add: isfile_def demo_fs_def)
  moreover have "demo_fs ''locked.txt'' = Some (Unopenable ''[Errno 13] Permission denied'')"
    by (simp add: demo_fs_def)
  moreover note
    C6_missing_or_unopenable [where fs = demo_fs and filename = "''absent.gz''"
      and lib = small_lib and pattern = "''error''" and ic = False, THEN conjunct1]
    C6_missing_or_unopenable [where fs = demo_fs and filename = "''locked.txt''"
      and lib = small_lib and pattern = "''error''" and ic = False
      and e = "''[Errno 13] Permission denied''" and search = "contains ''error''",
      THEN conjunct2]
  ultimately show ?thesis
    by (simp add: demo_compile file_not_found_def could_not_read_def)
qed

theorem C6_counterexample:
  "SearchInFlat small_lib demo_fs ''missing.txt'' ''error'' False =
     Inr \<lparr>printed = [''[ERROR] File not found: missing.txt''], returned = []\<rparr>"
  by (simp add: SearchInFlat_def SearchInFlat_with_def demo_fs_def isfile_def file_not_found_def)

lemma extract_all_eq:
  "nl \<notin> set buffer \<Longrightarrow>
   extract_all buffer chunks =
     (complete_lines (buffer @ concat chunks), last (py_split nl (buffer @ concat chunks)))"
proof (induction chunks arbitrary: buffer)
  case Nil
  then show ?case
    by (simp add: complete_lines_split py_split_no_sep_id)
next
  case (Cons c chunks)
  let ?b = "last (py_split nl (buffer @ c))"
  have "nl \<notin> set ?b"
    by (rule last_py_split_no_sep)
  from Cons.IH [OF this]
    butlast_py_split_append [of nl "buffer @ c" "concat chunks"]
    last_py_split_append [of nl "buffer @ c" "concat chunks"]
  show ?case
    by (simp add: split_buffer_def Let_def complete_lines_split)
qed

lemma concat_chop: "0 < n \<Longrightarrow> concat (chop n bs) = bs"
proof (induction n bs rule: chop.induct)
  case (1 n bs)
  then show ?case
    by (subst chop.simps) simp
qed

text \<open>
  C8. The chunk buffer, started without a newline in it and fed any list of chunks:
  the buffer it ends with holds no newline, no extracted line holds one, and the
  extracted lines, a newline after each, followed by the buffer are exactly the bytes
  received, in order. So the lines are the complete lines of those bytes and the buffer
  is the one fragment after the last newline. When the chunks are those the read loop
  gets from its file, the extracted lines are the lines the loop puts to the pattern.
\<close>

theorem C8_chunk_buffer_invariant:
  assumes "nl \<notin> set buffer"
    and "extract_all buffer chunks = (lines, buffer')"
  shows "nl \<notin> set buffer'
         \<and> (\<forall>l\<in>set lines. nl \<notin> set l)
         \<and> join_lines lines buffer' = buffer @ concat chunks
         \<and> lines = complete_lines (buffer @ concat chunks)
         \<and> (0 < n \<and> chunk \<noteq> [] \<and> chunks = chunk # chop n (pending infile)
              \<longrightarrow> read_loop n lib search filename infile chunk buffer retVal =
                    retVal @ map (match_record lib filename) (filter search lines)
                    @ failure_records filename (failure infile))"
proof -
  let ?all = "buffer @ concat chunks"
  from assms extract_all_eq [OF assms(1), of chunks]
  have lines: "lines = complete_lines ?all" and buf: "buffer' = last (py_split nl ?all)"
    by simp_all
  have "nl \<notin> set buffer'"
    unfolding buf by (rule last_py_split_no_sep)
  moreover have "\<forall>l\<in>set lines. nl \<notin> set l"
    unfolding lines by (simp add: complete_lines_no_nl)
  moreover have "join_lines lines buffer' = ?all"
    unfolding lines buf join_lines_def complete_lines_split by (rule py_split_join)
  moreover have "read_loop n lib search filename infile chunk buffer retVal =
      retVal @ map (match_record lib filename) (filter search lines)
      @ failure_records filename (failure infile)"
    if "0 < n \<and> chunk \<noteq> [] \<and> chunks = chunk # chop n (pending infile)"
    using that read_loop_eq [of n chunk lib search filename infile buffer retVal]
    by (simp add: lines complete_lines_split concat_chop)
  ultimately show ?thesis
    using lines by blast
qed

theorem C8_witness:
  "extract_all [] [''ab'', ''c'' @ [nl] @ ''d'', [nl, nl], ''x''] = ([''abc'', ''d'', []], ''x'')
   \<and> join_lines [''abc'', ''d'', []] ''x'' = ''abc'' @ [nl] @ ''d'' @ [nl, nl] @ ''x''
   \<and> chop 2 (''c'' @ [nl] @ ''d'' @ [nl, nl] @ ''x'') = [''c'' @ [nl], ''d'' @ [nl], [nl] @ ''x'']
   \<and> extract_all [] [''ab'', ''c'' @ [nl], ''d'' @ [nl], [nl] @ ''x''] = ([''abc'', ''d'', []], ''x'')
   \<and> read_loop 2 small_lib (contains ''b'') ''f''
       \<lparr>pending = ''c'' @ [nl] @ ''d'' @ [nl, nl] @ ''x'', failure = None\<rparr> ''ab'' [] [] =
       [''f:abc'']"
proof -
  have e: "extract_all [] [''ab'', ''c'' @ [nl] @ ''d'', [nl, nl], ''x''] =
      ([''abc'', ''d'', []], ''x'')"
    by (simp add: split_buffer_def)
  have c: "chop 2 (''c'' @ [nl] @ ''d'' @ [nl, nl] @ ''x'') = [''c'' @ [nl], ''d'' @ [nl], [nl] @ ''x'']"
    by (simp add: chop.simps)
  have e2: "extract_all [] [''ab'', ''c'' @ [nl], ''d'' @ [nl], [nl] @ ''x''] =
      ([''abc'', ''d'', []], ''x'')"
    by (simp add: split_buffer_def)
  have n: "nl \<notin> set []"
    by simp
  from C8_chunk_buffer_invariant [OF n e]
  have j: "join_lines [''abc'', ''d'', []] ''x'' =
      [] @ concat [''ab'', ''c'' @ [nl] @ ''d'', [nl, nl], ''x'']"
    by blast
  have p: "0 < (2 :: nat) \<and> ''ab'' \<noteq> []
      \<and> [''ab'', ''c'' @ [nl], ''d'' @ [nl], [nl] @ ''x''] =
          ''ab'' # chop 2 (pending \<lparr>pending = ''c'' @ [nl] @ ''d'' @ [nl, nl] @ ''x'',
                                    failure = None\<rparr>)"
    using c by simp
  note r = C8_chunk_buffer_invariant [OF n e2, where n = 2 and chunk = "''ab''"
      and infile = "\<lparr>pending = ''c'' @ [nl] @ ''d'' @ [nl, nl] @ ''x'', failure = None\<rparr>"
      and lib = small_lib and search = "contains ''b''" and filename = "''f''" and retVal = "[]",
      THEN conjunct2, THEN conjunct2, THEN conjunct2, THEN conjunct2, THEN mp, OF p]
  from e j c e2 r show ?thesis
    by (simp add: match_record_def small_lib_def ascii_strip_def is_space_def failure_records_def)
qed

text \<open>
  C9, as the program has it. With \<open>n\<close> cores the default of \<open>--workers\<close> is the
  larger of 1 and \<open>n - 1\<close>: that is \<open>n - 1\<close> from two cores on, and 1 below.
\<close>

theorem C9_default_workers:
  "default_workers (Some n) = Inr (if 2 \<le> n then n - 1 else 1)"
  by (simp add: default_workers_def)

theorem C9_witness:
  "default_workers (Some 8) = Inr 7"
  using C9_default_workers [of 8] by simp

theorem C9_counterexample:
  "default_workers (Some 1) = Inr 1 \<and> (1 :: int) \<noteq> 1 - 1"
  by (simp add: default_workers_def)

end
